theory Spec2Isabelle
  imports Main "HOL-Library.AList" "HOL-Library.Multiset"
begin

section \<open>Exceptions\<close>

text \<open>
  The handlers of \<^verbatim>\<open>main.py\<close> raise \<^verbatim>\<open>HTTPException(status, detail)\<close>; the
  store helpers may raise on any call; a true division raises \<^verbatim>\<open>ZeroDivisionError\<close>
  on a zero divisor. All of them derive from Python's \<^verbatim>\<open>Exception\<close>.
\<close>

datatype exn = HTTPException nat string | StoreError string | ZeroDivisionError

section \<open>Python floats\<close>

text \<open>
  The score is computed as \<^verbatim>\<open>int((correct / max(1, n)) * 100)\<close>. In Python 3
  \<^verbatim>\<open>/\<close> on two ints is true division: the result is the binary64 number nearest to
  the exact quotient (ties to even). The product with \<^verbatim>\<open>100\<close> converts the int to a
  float and rounds the exact product the same way, and \<^verbatim>\<open>int\<close> truncates.

  Only non-negative finite values occur, so a float is a mantissa and a binary exponent,
  standing for \<open>m * 2 ^ e\<close>. The exponent range of binary64 is not modelled: the
  operands are list lengths and the constant 100, far from overflow and underflow.
\<close>

datatype float = Float nat int

fun bit_length :: "nat \<Rightarrow> nat" where
  "bit_length n = (if n = 0 then 0 else Suc (bit_length (n div 2)))"

declare bit_length.simps [simp del]

definition round_half_even :: "nat \<Rightarrow> nat \<Rightarrow> nat" where
  \<comment> \<open>the integer nearest to \<open>p / q\<close>, ties to the even one\<close>
  "round_half_even p q =
     (let f = p div q; r = p mod q
      in if 2 * r < q then f
         else if q < 2 * r then f + 1
         else if even f then f else f + 1)"

definition ge_pow2 :: "nat \<Rightarrow> nat \<Rightarrow> int \<Rightarrow> bool" where
  \<comment> \<open>\<open>2 ^ k \<le> p / q\<close>\<close>
  "ge_pow2 p q k = (if 0 \<le> k then q * 2 ^ nat k \<le> p else q \<le> p * 2 ^ nat (- k))"

definition round_to_float :: "nat \<Rightarrow> nat \<Rightarrow> float" where
  \<comment> \<open>the binary64 number nearest to \<open>p / q\<close>, for \<open>0 < q\<close>: 53 significant bits\<close>
  "round_to_float p q =
     (if p = 0 then Float 0 0
      else
        let k = int (bit_length p) - int (bit_length q);
            e = (if ge_pow2 p q k then k else k - 1);
            s = 52 - e;
            m = (if 0 \<le> s then round_half_even (p * 2 ^ nat s) q
                 else round_half_even p (q * 2 ^ nat (- s)))
        in if m = 2 ^ 53 then Float (2 ^ 52) (e + 1 - 52) else Float m (e - 52))"

definition truediv :: "nat \<Rightarrow> nat \<Rightarrow> exn + float" where
  \<comment> \<open>\<^verbatim>\<open>a / b\<close> on ints\<close>
  "truediv a b = (if b = 0 then Inl ZeroDivisionError else Inr (round_to_float a b))"

definition float_of_nat :: "nat \<Rightarrow> float" where
  "float_of_nat n = round_to_float n 1"

fun float_mul :: "float \<Rightarrow> float \<Rightarrow> float" where
  "float_mul (Float m1 e1) (Float m2 e2) =
     (let m = m1 * m2; e = e1 + e2
      in if 0 \<le> e then round_to_float (m * 2 ^ nat e) 1
         else round_to_float m (2 ^ nat (- e)))"

fun int_of_float :: "float \<Rightarrow> int" where
  \<comment> \<open>\<^verbatim>\<open>int(x)\<close>: truncation\<close>
  "int_of_float (Float m e) =
     (if 0 \<le> e then int (m * 2 ^ nat e) else int (m div 2 ^ nat (- e)))"

section \<open>Schemas\<close>

text \<open>
  One record for each pydantic class of \<^verbatim>\<open>main.py\<close>, standing for the document
  the class dumps to. A field that a handler reads with \<^verbatim>\<open>dict.get\<close> is an option,
  \<open>None\<close> standing for a stored document without that key (\<^verbatim>\<open>order\<close> of a lesson,
  \<^verbatim>\<open>quiz_id\<close> and \<^verbatim>\<open>score\<close> of an attempt); a value that is present has the
  type the class declares.
\<close>

type_synonym datetime = int

record Track =
  title :: string
  slug :: string
  description :: string
  level :: string
  tags :: "string list"

record Lesson =
  track_slug :: string
  title :: string
  slug :: string
  content :: string
  difficulty :: string
  order :: "int option"

record Question =
  prompt :: string
  options :: "string list"
  answer_index :: int
  explanation :: "string option"

record Quiz =
  lesson_slug :: string
  title :: string
  questions :: "Question list"

record Attempt =
  user_email :: string
  quiz_id :: "string option"
  answers :: "int list"
  score :: "int option"
  created_at :: "datetime option"

record SubmitAttempt =
  user_email :: string
  answers :: "int list"

section \<open>Grading\<close>

text \<open>
  The loop of \<^verbatim>\<open>submit_attempt\<close>:
  \<^verbatim>\<open>
    correct = 0
    for i, ans in enumerate(payload.answers):
        if i < len(quiz["questions"]) and ans == quiz["questions"][i]["answer_index"]:
            correct += 1
  \<close>
  as a recursion over the answers still to be read, with the position and the counter.
\<close>

fun count_correct :: "Question list \<Rightarrow> nat \<Rightarrow> int list \<Rightarrow> nat \<Rightarrow> nat" where
  "count_correct qs i [] correct = correct"
| "count_correct qs i (ans # rest) correct =
     count_correct qs (i + 1) rest
       (if i < length qs \<and> ans = answer_index (qs ! i) then correct + 1 else correct)"

definition score_of :: "nat \<Rightarrow> nat \<Rightarrow> exn + int" where
  \<comment> \<open>\<^verbatim>\<open>int((correct / max(1, n)) * 100)\<close>\<close>
  "score_of correct n =
     (case truediv correct (max 1 n) of
        Inl e \<Rightarrow> Inl e
      | Inr x \<Rightarrow> Inr (int_of_float (float_mul x (float_of_nat 100))))"

definition grade :: "Question list \<Rightarrow> int list \<Rightarrow> exn + (int \<times> nat \<times> nat)" where
  \<comment> \<open>lines 274 to 278 and the values of the response: score, correct, total\<close>
  "grade qs submitted =
     (let correct = count_correct qs 0 submitted 0
      in case score_of correct (length qs) of
           Inl e \<Rightarrow> Inl e
         | Inr percent \<Rightarrow> Inr (percent, correct, length qs))"

section \<open>The document store\<close>

text \<open>
  \<^verbatim>\<open>main.py\<close> imports \<^verbatim>\<open>create_document\<close> and \<^verbatim>\<open>get_documents\<close> from the
  module \<^verbatim>\<open>database\<close>. A stored document is the pair of its identifier and its
  fields; a collection is the list of its documents in insertion order. The store may
  fail on any call: \<open>faults\<close> lists the outcomes of the calls to come, \<open>Some msg\<close> for a
  call that raises, and a plan that has run out means no further failure.
\<close>

record store =
  track :: "(string \<times> Track) list"
  lesson :: "(string \<times> Lesson) list"
  quiz :: "(string \<times> Quiz) list"
  attempt :: "(string \<times> Attempt) list"
  next_id :: nat
  faults :: "string option list"

definition documents ::
  "store \<Rightarrow> (string \<times> Track) list \<times> (string \<times> Lesson) list \<times> (string \<times> Quiz) list \<times> (string \<times> Attempt) list"
  where
  "documents s = (track s, lesson s, quiz s, attempt s)"

text \<open>
  Modelled from the spec: the store adapter is ``assumed reliable but fallible''. One
  round trip to the store takes the next outcome of the plan.
\<close>

definition store_call :: "store \<Rightarrow> (exn + unit) \<times> store" where
  "store_call s =
     (case faults s of
        [] \<Rightarrow> (Inr (), s)
      | None # fs \<Rightarrow> (Inr (), s\<lparr>faults := fs\<rparr>)
      | Some msg # fs \<Rightarrow> (Inl (StoreError msg), s\<lparr>faults := fs\<rparr>))"

fun str :: "nat \<Rightarrow> string" where
  \<comment> \<open>\<^verbatim>\<open>str(n)\<close>: the decimal digits\<close>
  "str n = (if n < 10 then [''0123456789'' ! n] else str (n div 10) @ [''0123456789'' ! (n mod 10)])"

declare str.simps [simp del]

text \<open>
  Modelled from the spec: \<^verbatim>\<open>get_documents\<close> of the module \<^verbatim>\<open>database\<close>, which is
  not among the sources. The adapter's contract is
  \<^verbatim>\<open>query(collection_name, filter, limit) -> ordered_sequence_of_documents\<close>: the
  documents of the collection that match the filter, at most \<open>limit\<close> of them, in the
  order of the store. The collection is given by its selector and the filter by the
  predicate it stands for.
\<close>

definition get_documents ::
  "(store \<Rightarrow> (string \<times> 'd) list) \<Rightarrow> (string \<times> 'd \<Rightarrow> bool) \<Rightarrow> nat \<Rightarrow> store
     \<Rightarrow> (exn + (string \<times> 'd) list) \<times> store" where
  "get_documents coll flt limit s =
     (case store_call s of
        (Inl e, s') \<Rightarrow> (Inl e, s')
      | (Inr _, s') \<Rightarrow> (Inr (take limit (filter flt (coll s'))), s'))"

text \<open>
  Modelled from the spec: \<^verbatim>\<open>create_document\<close> of the module \<^verbatim>\<open>database\<close>, which
  is not among the sources. The adapter's contract is
  \<^verbatim>\<open>create(collection_name, document) -> stored_document_with_id\<close>: the document is
  appended to the collection under a fresh identifier, here the decimal form of a
  counter; a call that raises stores nothing. The collection is given by its update
  function.
\<close>

definition create_document ::
  "(((string \<times> 'd) list \<Rightarrow> (string \<times> 'd) list) \<Rightarrow> store \<Rightarrow> store) \<Rightarrow> 'd \<Rightarrow> store
     \<Rightarrow> (exn + string) \<times> store" where
  "create_document coll_update doc s =
     (case store_call s of
        (Inl e, s') \<Rightarrow> (Inl e, s')
      | (Inr _, s') \<Rightarrow>
          (let i = str (next_id s')
           in (Inr i, (coll_update (\<lambda>ds. ds @ [(i, doc)]) s')\<lparr>next_id := Suc (next_id s')\<rparr>)))"

section \<open>Seeding\<close>

definition ensure_track :: "Track \<Rightarrow> store \<Rightarrow> (exn + unit) \<times> store" where
  "ensure_track t s =
     (case get_documents track (\<lambda>d. Track.slug (snd d) = Track.slug t) 1 s of
        (Inl e, s') \<Rightarrow> (Inl e, s')
      | (Inr existing, s') \<Rightarrow>
          if existing = [] then
            (case create_document track_update t s' of
               (Inl e, s'') \<Rightarrow> (Inl e, s'')
             | (Inr _, s'') \<Rightarrow> (Inr (), s''))
          else (Inr (), s'))"

definition ensure_lesson :: "Lesson \<Rightarrow> store \<Rightarrow> (exn + unit) \<times> store" where
  "ensure_lesson l s =
     (case get_documents lesson (\<lambda>d. Lesson.slug (snd d) = Lesson.slug l) 1 s of
        (Inl e, s') \<Rightarrow> (Inl e, s')
      | (Inr existing, s') \<Rightarrow>
          if existing = [] then
            (case create_document lesson_update l s' of
               (Inl e, s'') \<Rightarrow> (Inl e, s'')
             | (Inr _, s'') \<Rightarrow> (Inr (), s''))
          else (Inr (), s'))"

definition ensure_quiz :: "Quiz \<Rightarrow> store \<Rightarrow> (exn + unit) \<times> store" where
  "ensure_quiz q s =
     (case get_documents quiz (\<lambda>d. lesson_slug (snd d) = lesson_slug q) 1 s of
        (Inl e, s') \<Rightarrow> (Inl e, s')
      | (Inr existing, s') \<Rightarrow>
          if existing = [] then
            (case create_document quiz_update q s' of
               (Inl e, s'') \<Rightarrow> (Inl e, s'')
             | (Inr _, s'') \<Rightarrow> (Inr (), s''))
          else (Inr (), s'))"

fun for_each :: "('a \<Rightarrow> store \<Rightarrow> (exn + unit) \<times> store) \<Rightarrow> 'a list \<Rightarrow> store \<Rightarrow> (exn + unit) \<times> store"
  where
  \<comment> \<open>\<^verbatim>\<open>for x in xs: await f(x)\<close>: the first exception ends the loop\<close>
  "for_each f [] s = (Inr (), s)"
| "for_each f (x # xs) s =
     (case f x s of
        (Inl e, s') \<Rightarrow> (Inl e, s')
      | (Inr _, s') \<Rightarrow> for_each f xs s')"

definition seed_tracks :: "Track list" where
  "seed_tracks =
     [\<lparr>Track.title = ''SECTION I'', slug = ''section-i'',
       description = ''Foundations: DB systems, relational model, and SQL fundamentals.'',
       level = ''beginner'', tags = [''database'', ''relational'', ''sql'']\<rparr>,
      \<lparr>Track.title = ''SECTION II'', slug = ''section-ii'',
       description = ''Design, indexing, transactions, concurrency, and recovery.'',
       level = ''intermediate'', tags = [''design'', ''indexing'', ''transactions'']\<rparr>]"

definition lessons :: "(nat \<Rightarrow> string) \<Rightarrow> Lesson list" where
  \<comment> \<open>\<open>md n\<close> is the markdown text \<^verbatim>\<open>unit<n>_md\<close>, which no handler looks into\<close>
  "lessons md =
     [\<lparr>track_slug = ''section-i'', title = ''UNIT 1: Introduction to Database Systems'',
       slug = ''unit-1-intro-db'', content = md 1, difficulty = ''easy'', order = Some 1\<rparr>,
      \<lparr>track_slug = ''section-i'', title = ''UNIT 2: Relational Model, Algebra & Calculus'',
       slug = ''unit-2-relational'', content = md 2, difficulty = ''easy'', order = Some 2\<rparr>,
      \<lparr>track_slug = ''section-i'', title = ''UNIT 3: Introduction to SQL'',
       slug = ''unit-3-sql'', content = md 3, difficulty = ''easy'', order = Some 3\<rparr>,
      \<lparr>track_slug = ''section-ii'', title = ''UNIT 4: Relational Database Design'',
       slug = ''unit-4-design'', content = md 4, difficulty = ''intermediate'', order = Some 1\<rparr>,
      \<lparr>track_slug = ''section-ii'', title = ''UNIT 5: Indexing & Hashing'',
       slug = ''unit-5-indexing'', content = md 5, difficulty = ''intermediate'', order = Some 2\<rparr>,
      \<lparr>track_slug = ''section-ii'', title = ''UNIT 6: Transaction Processing'',
       slug = ''unit-6-transactions'', content = md 6, difficulty = ''intermediate'', order = Some 3\<rparr>,
      \<lparr>track_slug = ''section-ii'', title = ''UNIT 7: Concurrency Control & Recovery'',
       slug = ''unit-7-concurrency'', content = md 7, difficulty = ''intermediate'', order = Some 4\<rparr>]"

definition quizzes :: "Quiz list" where
  \<comment> \<open>the Greek letters and operators of the second quiz are written as their UTF-8 bytes\<close>
  "quizzes =
     [\<lparr>lesson_slug = ''unit-1-intro-db'', title = ''Unit 1 Quiz'', questions =
        [\<lparr>prompt = ''Which property is NOT part of ACID?'',
          options = [''Atomicity'', ''Consistency'', ''Isolation'', ''Distribution''],
          answer_index = 3,
          explanation = Some ''Durability is the D; Distribution is not an ACID property.''\<rparr>]\<rparr>,
      \<lparr>lesson_slug = ''unit-2-relational'', title = ''Unit 2 Quiz'', questions =
        [\<lparr>prompt = ''Which operator in Relational Algebra filters rows?'',
          options = [''Projection ('' @ [CHR 0xCF, CHR 0x80] @ '')'',
                     ''Selection ('' @ [CHR 0xCF, CHR 0x83] @ '')'',
                     ''Union ('' @ [CHR 0xE2, CHR 0x88, CHR 0xAA] @ '')'',
                     ''Join ('' @ [CHR 0xE2, CHR 0xA8, CHR 0x9D] @ '')''],
          answer_index = 1, explanation = None\<rparr>]\<rparr>,
      \<lparr>lesson_slug = ''unit-3-sql'', title = ''Unit 3 Quiz'', questions =
        [\<lparr>prompt = ''Which SQL clause groups rows for aggregation?'',
          options = [''WHERE'', ''GROUP BY'', ''ORDER BY'', ''HAVING''],
          answer_index = 1, explanation = None\<rparr>]\<rparr>,
      \<lparr>lesson_slug = ''unit-4-design'', title = ''Unit 4 Quiz'', questions =
        [\<lparr>prompt = ''BCNF eliminates which issue most strongly?'',
          options = [''Update anomalies'', ''Lost updates'', ''Phantoms'', ''Buffer thrashing''],
          answer_index = 0, explanation = None\<rparr>]\<rparr>,
      \<lparr>lesson_slug = ''unit-5-indexing'', title = ''Unit 5 Quiz'', questions =
        [\<lparr>prompt = ''A B+Tree stores keys in which nodes?'',
          options = [''Leaves only'', ''Internal only'', ''Both internal and leaves'', ''Neither''],
          answer_index = 2, explanation = None\<rparr>]\<rparr>,
      \<lparr>lesson_slug = ''unit-6-transactions'', title = ''Unit 6 Quiz'', questions =
        [\<lparr>prompt = ''Read committed prevents which phenomenon?'',
          options = [''Dirty reads'', ''Non-repeatable reads'', ''Phantoms'', ''Deadlocks''],
          answer_index = 0, explanation = None\<rparr>]\<rparr>,
      \<lparr>lesson_slug = ''unit-7-concurrency'', title = ''Unit 7 Quiz'', questions =
        [\<lparr>prompt = ''Which protocol can cause deadlocks?'',
          options = [''Timestamp ordering'', ''Two-phase locking'', ''Optimistic CC'', ''MVCC''],
          answer_index = 1, explanation = None\<rparr>]\<rparr>]"

definition seed_body :: "(nat \<Rightarrow> string) \<Rightarrow> store \<Rightarrow> (exn + unit) \<times> store" where
  \<comment> \<open>the \<^verbatim>\<open>try\<close> block of \<^verbatim>\<open>seed_data\<close>: the two calls of \<^verbatim>\<open>ensure_track\<close>,
      then the loop over the lessons and the loop over the quizzes\<close>
  "seed_body md s =
     (case for_each ensure_track seed_tracks s of
        (Inl e, s1) \<Rightarrow> (Inl e, s1)
      | (Inr _, s1) \<Rightarrow>
          (case for_each ensure_lesson (lessons md) s1 of
             (Inl e, s2) \<Rightarrow> (Inl e, s2)
           | (Inr _, s2) \<Rightarrow> for_each ensure_quiz quizzes s2))"

definition seed_data :: "(nat \<Rightarrow> string) \<Rightarrow> store \<Rightarrow> (exn + unit) \<times> store" where
  \<comment> \<open>\<^verbatim>\<open>try: ... except Exception as e: print(...)\<close>: the handler prints and returns\<close>
  "seed_data md s =
     (case seed_body md s of
        (Inl e, s') \<Rightarrow> (Inr (), s')
      | (Inr u, s') \<Rightarrow> (Inr u, s'))"

section \<open>Lessons of a track\<close>

definition order_key :: "string \<times> Lesson \<Rightarrow> int" where
  \<comment> \<open>\<^verbatim>\<open>lambda x: x.get("order", 0)\<close>\<close>
  "order_key x = (case order (snd x) of None \<Rightarrow> 0 | Some n \<Rightarrow> n)"

definition list_lessons :: "string \<Rightarrow> store \<Rightarrow> (exn + (string \<times> Lesson) list) \<times> store" where
  \<comment> \<open>\<^verbatim>\<open>list.sort\<close> is stable, as \<open>sort_key\<close> is\<close>
  "list_lessons sl s =
     (case get_documents lesson (\<lambda>d. track_slug (snd d) = sl) 200 s of
        (Inl e, s') \<Rightarrow> (Inl e, s')
      | (Inr items, s') \<Rightarrow> (Inr (sort_key order_key items), s'))"

section \<open>Quiz attempts\<close>

definition submit_attempt ::
  "string \<Rightarrow> SubmitAttempt \<Rightarrow> datetime \<Rightarrow> store \<Rightarrow> (exn + (int \<times> nat \<times> nat)) \<times> store" where
  \<comment> \<open>\<open>now\<close> is the value of \<^verbatim>\<open>datetime.utcnow()\<close>; the response is
      \<^verbatim>\<open>{"score": score, "correct": correct, "total": len(quiz["questions"])}\<close>\<close>
  "submit_attempt qid payload now s =
     (case get_documents quiz (\<lambda>d. fst d = qid) 1 s of
        (Inl e, s1) \<Rightarrow> (Inl e, s1)
      | (Inr found, s1) \<Rightarrow>
          (case found of
             [] \<Rightarrow> (Inl (HTTPException 404 ''Quiz not found''), s1)
           | q # _ \<Rightarrow>
               (case grade (questions (snd q)) (SubmitAttempt.answers payload) of
                  Inl e \<Rightarrow> (Inl e, s1)
                | Inr (percent, correct, n) \<Rightarrow>
                    (case create_document attempt_update
                            \<lparr>Attempt.user_email = SubmitAttempt.user_email payload,
                             quiz_id = Some qid,
                             answers = SubmitAttempt.answers payload,
                             score = Some percent,
                             created_at = Some now\<rparr> s1 of
                       (Inl e, s2) \<Rightarrow> (Inl e, s2)
                     | (Inr _, s2) \<Rightarrow> (Inr (percent, correct, n), s2)))))"

section \<open>Progress\<close>

definition score_or_0 :: "string \<times> Attempt \<Rightarrow> int" where
  \<comment> \<open>\<^verbatim>\<open>a.get("score", 0)\<close>\<close>
  "score_or_0 a = (case score (snd a) of None \<Rightarrow> 0 | Some n \<Rightarrow> n)"

text \<open>
  \<^verbatim>\<open>by_quiz\<close> is a dict: an association list with one entry for each key, in the
  order of first insertion, which is what \<open>AList.update\<close> maintains.
\<close>

fun best_scores :: "(string \<times> Attempt) list \<Rightarrow> (string option \<times> int) list \<Rightarrow> (string option \<times> int) list"
  where
  "best_scores [] by_quiz = by_quiz"
| "best_scores (a # rest) by_quiz =
     best_scores rest
       (case map_of by_quiz (quiz_id (snd a)) of
          None \<Rightarrow> AList.update (quiz_id (snd a)) (score_or_0 a) by_quiz
        | Some best \<Rightarrow>
            if score_or_0 a > best then AList.update (quiz_id (snd a)) (score_or_0 a) by_quiz
            else by_quiz)"

definition completed_count :: "(string option \<times> int) list \<Rightarrow> nat" where
  \<comment> \<open>\<^verbatim>\<open>sum(1 for s in by_quiz.values() if s >= 70)\<close>\<close>
  "completed_count by_quiz = length (filter (\<lambda>b. 70 \<le> b) (map snd by_quiz))"

definition get_progress ::
  "string \<Rightarrow> store \<Rightarrow> (exn + (nat \<times> (string option \<times> int) list)) \<times> store" where
  \<comment> \<open>the response is \<^verbatim>\<open>{"quizzes_completed": completed, "best_scores": by_quiz}\<close>\<close>
  "get_progress email s =
     (case get_documents attempt (\<lambda>d. Attempt.user_email (snd d) = email) 1000 s of
        (Inl e, s') \<Rightarrow> (Inl e, s')
      | (Inr attempts, s') \<Rightarrow>
          (let by_quiz = best_scores attempts []
           in (Inr (completed_count by_quiz, by_quiz), s')))"

section \<open>Auxiliary definitions for the statements\<close>

fun float_le_nat :: "float \<Rightarrow> nat \<Rightarrow> bool" where
  \<comment> \<open>the value \<open>m * 2 ^ e\<close> is at most \<open>n\<close>\<close>
  "float_le_nat (Float m e) n =
     (if 0 \<le> e then m * 2 ^ nat e \<le> n else m \<le> n * 2 ^ nat (- e))"

definition floor_percent :: "nat \<Rightarrow> nat \<Rightarrow> int" where
  \<comment> \<open>the score in the words of the specification:
      \<^verbatim>\<open>floor(100 * correct_count / max(1, total_count))\<close>\<close>
  "floor_percent correct n = (100 * int correct) div int (max 1 n)"

definition matching_positions :: "Question list \<Rightarrow> int list \<Rightarrow> nat list" where
  \<comment> \<open>the positions \<open>i\<close> below both lengths at which the submitted answer is the
      question's \<^verbatim>\<open>answer_index\<close>\<close>
  "matching_positions qs submitted =
     filter (\<lambda>i. submitted ! i = answer_index (qs ! i)) [0..<min (length submitted) (length qs)]"

definition answer_index_valid :: "Question \<Rightarrow> bool" where
  \<comment> \<open>the invariant of the data model, which no code of \<^verbatim>\<open>main.py\<close> checks:
      \<^verbatim>\<open>answer_index\<close> is an index into \<^verbatim>\<open>options\<close>\<close>
  "answer_index_valid q = (0 \<le> answer_index q \<and> answer_index q < int (length (options q)))"

definition sample_question :: Question where
  "sample_question =
     \<lparr>prompt = ''Which SQL clause groups rows for aggregation?'',
      options = [''WHERE'', ''GROUP BY'', ''ORDER BY'', ''HAVING''],
      answer_index = 1, explanation = None\<rparr>"

definition sample_quiz :: Quiz where
  "sample_quiz =
     \<lparr>lesson_slug = ''unit-3-sql'', title = ''Unit 3 Quiz'', questions = [sample_question]\<rparr>"

definition sample_store :: store where
  \<comment> \<open>a store that holds one quiz, under the identifier 0, and answers every call\<close>
  "sample_store =
     \<lparr>track = [], lesson = [], quiz = [(''0'', sample_quiz)], attempt = [], next_id = 7,
      faults = []\<rparr>"

definition tracks_with_key :: "string \<Rightarrow> store \<Rightarrow> (string \<times> Track) list" where
  \<comment> \<open>the stored tracks with the given natural key, the slug\<close>
  "tracks_with_key k s = filter (\<lambda>d. Track.slug (snd d) = k) (track s)"

definition lessons_with_key :: "string \<Rightarrow> store \<Rightarrow> (string \<times> Lesson) list" where
  \<comment> \<open>the stored lessons with the given natural key, the slug\<close>
  "lessons_with_key k s = filter (\<lambda>d. Lesson.slug (snd d) = k) (lesson s)"

definition quizzes_with_key :: "string \<Rightarrow> store \<Rightarrow> (string \<times> Quiz) list" where
  \<comment> \<open>the stored quizzes with the given natural key, the slug of the lesson\<close>
  "quizzes_with_key k s = filter (\<lambda>d. lesson_slug (snd d) = k) (quiz s)"

definition again :: "(store \<Rightarrow> (exn + unit) \<times> store) \<Rightarrow> nat \<Rightarrow> store \<Rightarrow> store" where
  \<comment> \<open>the store after \<open>n\<close> invocations in a row, whatever each of them returned\<close>
  "again f n = (\<lambda>u. snd (f u)) ^^ n"

definition empty_store :: store where
  "empty_store = \<lparr>track = [], lesson = [], quiz = [], attempt = [], next_id = 0, faults = []\<rparr>"

definition duplicate_store :: store where
  \<comment> \<open>a store that holds the first seed track twice\<close>
  "duplicate_store =
     \<lparr>track = [(''0'', hd seed_tracks), (''1'', hd seed_tracks)], lesson = [], quiz = [],
      attempt = [], next_id = 2, faults = []\<rparr>"

definition crowded_store :: store where
  \<comment> \<open>a store that holds 201 lessons of one track\<close>
  "crowded_store =
     \<lparr>track = [], lesson = replicate 201 (''0'', hd (lessons (\<lambda>n. []))), quiz = [], attempt = [],
      next_id = 1, faults = []\<rparr>"

definition shelf_store :: store where
  \<comment> \<open>a store that holds units 2, 4 and 1, in this order\<close>
  "shelf_store =
     \<lparr>track = [],
      lesson = [(''0'', lessons (\<lambda>n. []) ! 1), (''1'', lessons (\<lambda>n. []) ! 3),
                (''2'', lessons (\<lambda>n. []) ! 0)],
      quiz = [], attempt = [], next_id = 3, faults = []\<rparr>"

definition scored :: "int option \<Rightarrow> Attempt" where
  \<comment> \<open>an attempt of the learner \<^verbatim>\<open>a@b.c\<close> on the quiz 0, with the given score field\<close>
  "scored sc =
     \<lparr>Attempt.user_email = ''a@b.c'', quiz_id = Some ''0'', answers = [], score = sc,
      created_at = None\<rparr>"

definition progress_store :: store where
  \<comment> \<open>three attempts on one quiz, scoring 40, 90 and 70\<close>
  "progress_store =
     \<lparr>track = [], lesson = [], quiz = [],
      attempt = [(''1'', scored (Some 40)), (''2'', scored (Some 90)), (''3'', scored (Some 70))],
      next_id = 4, faults = []\<rparr>"

definition busy_store :: store where
  \<comment> \<open>1001 attempts on one quiz: a thousand scoring 10, then one scoring 90\<close>
  "busy_store =
     \<lparr>track = [], lesson = [], quiz = [],
      attempt = replicate 1000 (''1'', scored (Some 10)) @ [(''2'', scored (Some 90))],
      next_id = 3, faults = []\<rparr>"

section \<open>Float arithmetic\<close>

lemmas float_eval = round_to_float_def ge_pow2_def round_half_even_def bit_length.simps Let_def

lemma float_of_nat_100: "float_of_nat 100 = Float 7036874417766400 (- 46)"
  by (simp add: float_of_nat_def float_eval)

lemma bit_length_upper: "n < 2 ^ bit_length n"
proof (induction n rule: bit_length.induct)
  case (1 n)
  show ?case
  proof (cases "n = 0")
    case True
    then show ?thesis by (simp add: bit_length.simps)
  next
    case False
    with 1 have "n div 2 < 2 ^ bit_length (n div 2)" by simp
    then have "n < 2 * 2 ^ bit_length (n div 2)" by linarith
    with False show ?thesis by (simp add: bit_length.simps [of n])
  qed
qed

lemma bit_length_le: "n < 2 ^ j \<Longrightarrow> bit_length n \<le> j"
proof (induction n arbitrary: j rule: bit_length.induct)
  case (1 n)
  show ?case
  proof (cases "n = 0")
    case True
    then show ?thesis by (simp add: bit_length.simps)
  next
    case False
    with 1(2) obtain i where j: "j = Suc i" by (cases j) auto
    with 1(2) have "n div 2 < 2 ^ i" by simp
    with 1(1) False have "bit_length (n div 2) \<le> i" by simp
    with False j show ?thesis by (simp add: bit_length.simps [of n])
  qed
qed

lemma pow2_le_1: "(2::nat) ^ i \<le> 1 \<Longrightarrow> i = 0"
proof (cases i)
  case 0
  then show ?thesis by simp
next
  case (Suc j)
  assume "(2::nat) ^ i \<le> 1"
  with Suc have "2 * (2::nat) ^ j \<le> 1" by simp
  moreover have "1 \<le> (2::nat) ^ j" by simp
  ultimately show ?thesis by linarith
qed

lemma round_half_even_exact: "0 < q \<Longrightarrow> round_half_even (n * q) q = n"
  by (simp add: round_half_even_def)

lemma round_half_even_le:
  assumes "0 < q" and "p \<le> i * q"
  shows "round_half_even p q \<le> i"
proof (cases "p = i * q")
  case True
  with assms show ?thesis by (simp add: round_half_even_def)
next
  case False
  with assms have "p < i * q" by simp
  with assms have "p div q < i" by (simp add: less_mult_imp_div_less)
  then show ?thesis by (simp add: round_half_even_def Let_def)
qed

text \<open>Rounding never crosses an integer that binary64 represents exactly.\<close>

lemma round_to_float_le:
  assumes q: "0 < q" and pq: "p \<le> n * q" and n: "n < 2 ^ 53"
  shows "float_le_nat (round_to_float p q) n"
proof (cases "p = 0")
  case True
  then show ?thesis by (simp add: round_to_float_def)
next
  case False
  define k where "k = int (bit_length p) - int (bit_length q)"
  define e where "e = (if ge_pow2 p q k then k else k - 1)"
  define s where "s = 52 - e"
  define m where "m = (if 0 \<le> s then round_half_even (p * 2 ^ nat s) q
                       else round_half_even p (q * 2 ^ nat (- s)))"
  have rt: "round_to_float p q =
              (if m = 2 ^ 53 then Float (2 ^ 52) (e + 1 - 52) else Float m (e - 52))"
    using False by (simp add: round_to_float_def k_def e_def s_def m_def Let_def)
  have "n * q < 2 ^ 53 * q" using n q by (rule mult_strict_right_mono)
  with pq have p53: "p < 2 ^ 53 * q" by (rule le_less_trans)
  have "q < 2 ^ bit_length q" by (rule bit_length_upper)
  then have "2 ^ 53 * q < (2::nat) ^ 53 * 2 ^ bit_length q" by simp
  with p53 have "p < 2 ^ (53 + bit_length q)" by (simp add: power_add)
  then have "bit_length p \<le> 53 + bit_length q" by (rule bit_length_le)
  then have k53: "k \<le> 53" by (simp add: k_def)
  from p53 have "\<not> ge_pow2 p q 53" by (simp add: ge_pow2_def mult.commute)
  with k53 have "e \<le> 52" by (cases "k = 53") (auto simp: e_def)
  then have s0: "0 \<le> s" by (simp add: s_def)
  then have m_eq: "m = round_half_even (p * 2 ^ nat s) q" by (simp add: m_def)
  from pq have "p * 2 ^ nat s \<le> (n * 2 ^ nat s) * q"
    by (simp add: mult.assoc mult.left_commute mult.commute)
  with q have m_le: "m \<le> n * 2 ^ nat s" unfolding m_eq by (rule round_half_even_le)
  obtain j where j: "s = int j" using s0 by (metis nat_0_le)
  show ?thesis
  proof (cases "m = 2 ^ 53")
    case True
    with m_le j have big: "(2::nat) ^ 53 \<le> n * 2 ^ j" by simp
    have "j \<noteq> 0"
    proof
      assume "j = 0"
      with big have "(2::nat) ^ 53 \<le> n" by simp
      with n show False by simp
    qed
    then obtain i where i: "j = Suc i" by (cases j) auto
    with big have "(2::nat) ^ 52 \<le> n * 2 ^ i" by simp
    moreover have "e + 1 - 52 = - int i" using j i by (simp add: s_def)
    ultimately show ?thesis using True rt by (cases "i = 0") simp_all
  next
    case False
    have "e - 52 = - int j" using j by (simp add: s_def)
    with False rt m_le j show ?thesis by (cases "j = 0") simp_all
  qed
qed

lemma int_of_float_le: "float_le_nat x n \<Longrightarrow> int_of_float x \<le> int n"
proof (cases x)
  case (Float m e)
  assume le: "float_le_nat x n"
  show ?thesis
  proof (cases "0 \<le> e")
    case True
    with le Float have "m * 2 ^ nat e \<le> n" by simp
    then have "int (m * 2 ^ nat e) \<le> int n" by (simp only: of_nat_le_iff)
    with True Float show ?thesis by (simp only: int_of_float.simps if_True)
  next
    case False
    with le Float have "m \<le> n * 2 ^ nat (- e)" by simp
    then have "m div 2 ^ nat (- e) \<le> n * 2 ^ nat (- e) div 2 ^ nat (- e)"
      by (rule div_le_mono)
    then have "m div 2 ^ nat (- e) \<le> n" by simp
    with False Float show ?thesis by simp
  qed
qed

lemma int_of_float_nonneg: "0 \<le> int_of_float x"
  by (cases x) simp

lemma float_mul_100_le:
  assumes "float_le_nat x 1"
  shows "float_le_nat (float_mul x (Float 7036874417766400 (- 46))) 100"
proof (cases x)
  case (Float m e)
  consider "46 \<le> e" | "0 \<le> e" "e < 46" | "e < 0" by linarith
  then show ?thesis
  proof cases
    case 1
    with assms Float have "m * 2 ^ nat e \<le> 1" by simp
    moreover from 1 obtain i where "nat e = Suc i" by (cases "nat e") auto
    then have "m * 2 \<le> m * 2 ^ nat e" by simp
    ultimately have "m = 0" by linarith
    with 1 Float show ?thesis by (simp add: round_to_float_def)
  next
    case 2
    with assms Float have le: "m * 2 ^ nat e \<le> 1" by simp
    show ?thesis
    proof (cases "m = 0")
      case True
      with 2 Float show ?thesis by (simp add: round_to_float_def)
    next
      case False
      have "m \<le> m * 2 ^ nat e" by simp
      with le False have m1: "m = 1" by linarith
      with le have "(2::nat) ^ nat e \<le> 1" by simp
      then have "nat e = 0" by (rule pow2_le_1)
      with 2 m1 have "m = 1 \<and> e = 0" by simp
      with Float have "float_mul x (Float 7036874417766400 (- 46)) =
          round_to_float (100 * 2 ^ 46) (2 ^ 46)"
        by simp
      moreover have "float_le_nat (round_to_float (100 * 2 ^ 46) (2 ^ 46)) 100"
        by (rule round_to_float_le) simp_all
      ultimately show ?thesis by simp
    qed
  next
    case 3
    with assms Float have le: "m \<le> 2 ^ nat (- e)" by simp
    from 3 have ex: "nat (46 - e) = 46 + nat (- e)" by simp
    from 3 Float have "float_mul x (Float 7036874417766400 (- 46)) =
        round_to_float (m * (100 * 2 ^ 46)) (2 ^ nat (46 - e))"
      by (simp add: Let_def)
    moreover have "float_le_nat (round_to_float (m * (100 * 2 ^ 46)) (2 ^ nat (46 - e))) 100"
    proof (rule round_to_float_le)
      show "(0::nat) < 2 ^ nat (46 - e)" by simp
      show "m * (100 * 2 ^ 46) \<le> 100 * 2 ^ nat (46 - e)"
        using le unfolding ex power_add by simp
      show "(100::nat) < 2 ^ 53" by simp
    qed
    ultimately show ?thesis by simp
  qed
qed

section \<open>The score\<close>

lemma score_of_0: "score_of 0 n = Inr 0"
  by (simp add: score_of_def truediv_def float_of_nat_100) (simp add: round_to_float_def)

lemma round_to_float_same: "0 < t \<Longrightarrow> round_to_float t t = Float 4503599627370496 (- 52)"
  using round_half_even_exact [of t 4503599627370496]
  by (simp add: round_to_float_def ge_pow2_def Let_def mult.commute)

lemma float_mul_1_100:
  "float_mul (Float 4503599627370496 (- 52)) (Float 7036874417766400 (- 46)) =
     Float 7036874417766400 (- 46)"
  by (simp add: float_eval)

lemma score_of_all: "0 < t \<Longrightarrow> score_of t t = Inr 100"
  by (simp add: score_of_def truediv_def round_to_float_same float_of_nat_100 float_mul_1_100
        del: float_mul.simps)

lemma score_of_29_50: "score_of 29 50 = Inr 57"
  by (simp add: score_of_def truediv_def float_of_nat_def float_eval)

text \<open>The score is defined for all counts, and within 0 and 100 when \<open>correct \<le> n\<close>.\<close>

lemma score_of_range:
  assumes "correct \<le> n"
  shows "\<exists>percent. score_of correct n = Inr percent \<and> 0 \<le> percent \<and> percent \<le> 100"
proof -
  from assms have "correct \<le> 1 * max 1 n" by simp
  then have "float_le_nat (round_to_float correct (max 1 n)) 1"
    by (rule round_to_float_le [rotated]) simp_all
  then have "float_le_nat (float_mul (round_to_float correct (max 1 n)) (float_of_nat 100)) 100"
    unfolding float_of_nat_100 by (rule float_mul_100_le)
  then have "int_of_float (float_mul (round_to_float correct (max 1 n)) (float_of_nat 100)) \<le> 100"
    using int_of_float_le by fastforce
  then show ?thesis
    by (simp add: score_of_def truediv_def int_of_float_nonneg del: float_mul.simps)
qed

section \<open>Counting the correct answers\<close>

lemma count_correct_no_questions: "count_correct [] i submitted c = c"
  by (induction submitted arbitrary: i c) simp_all

lemma count_correct_zip:
  "count_correct qs i submitted c =
     c + length (filter (\<lambda>(a, q). a = answer_index q) (zip submitted (drop i qs)))"
proof (induction submitted arbitrary: i c)
  case Nil
  then show ?case by simp
next
  case (Cons a rest)
  show ?case
  proof (cases "i < length qs")
    case True
    then have "drop i qs = qs ! i # drop (Suc i) qs"
      by (simp add: Cons_nth_drop_Suc)
    with True show ?thesis by (simp add: Cons.IH)
  next
    case False
    then show ?thesis by (simp add: Cons.IH)
  qed
qed

lemma zip_take_questions: "zip (take (length qs) xs) qs = zip xs qs"
proof (induction qs arbitrary: xs)
  case Nil
  then show ?case by simp
next
  case (Cons q qs)
  then show ?case by (cases xs) simp_all
qed

lemma count_correct_le: "count_correct qs 0 submitted 0 \<le> length qs"
proof -
  have "length (filter (\<lambda>(a, q). a = answer_index q) (zip submitted qs)) \<le> length (zip submitted qs)"
    by (rule length_filter_le)
  then show ?thesis by (simp add: count_correct_zip)
qed

lemma count_correct_all: "count_correct qs 0 (map answer_index qs) 0 = length qs"
proof -
  have "filter (\<lambda>(a, q). a = answer_index q) (zip (map answer_index qs) qs) =
          zip (map answer_index qs) qs"
    by (induction qs) simp_all
  then show ?thesis by (simp add: count_correct_zip)
qed

text \<open>
  The parts of the grading that are as the specification words them: the counter is the
  number of matching positions, the total is the number of questions, and answers beyond
  the last question change nothing.
\<close>

lemma zip_conv_nth:
  "zip xs ys = map (\<lambda>i. (xs ! i, ys ! i)) [0..<min (length xs) (length ys)]"
  by (rule nth_equalityI) simp_all

lemma count_correct_matching:
  "count_correct qs 0 submitted 0 = length (matching_positions qs submitted)"
proof -
  have "filter (\<lambda>(a, q). a = answer_index q) (zip submitted qs) =
          map (\<lambda>i. (submitted ! i, qs ! i)) (matching_positions qs submitted)"
    unfolding matching_positions_def
    by (subst zip_conv_nth) (simp add: filter_map comp_def)
  then show ?thesis by (simp add: count_correct_zip)
qed

lemma grade_counts:
  "\<exists>percent. grade qs submitted = Inr (percent, length (matching_positions qs submitted), length qs)"
  using score_of_range [OF count_correct_le [of qs submitted]]
  by (auto simp: grade_def count_correct_matching)

lemma grade_excess_ignored: "grade qs (take (length qs) submitted) = grade qs submitted"
  by (simp add: grade_def count_correct_zip zip_take_questions)

lemma grade_range:
  "\<exists>percent. grade qs submitted = Inr (percent, count_correct qs 0 submitted 0, length qs)
      \<and> 0 \<le> percent \<and> percent \<le> 100"
  using score_of_range [OF count_correct_le [of qs submitted]]
  by (auto simp: grade_def)

section \<open>Claims about grading\<close>

text \<open>
  C1. The claim: \<^verbatim>\<open>submit_attempt\<close> computes the number of matching positions, the
  number of questions, and the score \<^verbatim>\<open>floor(100 * correct_count / max(1, total_count))\<close>.
  The two counts are as claimed (\<open>grade_counts\<close>, \<open>grade_excess_ignored\<close>). The score
  is not: the code divides first, in floating point, and multiplies by 100 afterwards.
  For 29 correct answers out of 50 questions the quotient \<^verbatim>\<open>29 / 50\<close> is the float
  below 0.58, the product is 57.99999999999999 and \<^verbatim>\<open>int\<close> truncates it to 57, where
  the floor of the exact value is 58.
\<close>

theorem grade_29_of_50:
  "grade (replicate 50 sample_question) (replicate 29 1) = Inr (57, 29, 50) \<and>
   floor_percent 29 50 = 58"
proof -
  have "count_correct (replicate 50 sample_question) 0 (replicate 29 1) 0 = 29"
    by (simp add: count_correct_zip zip_replicate sample_question_def)
  then show ?thesis by (simp add: grade_def score_of_29_50 floor_percent_def)
qed

text \<open>
  C7, as stated: for every quiz whose \<^verbatim>\<open>answer_index\<close> values are valid, submitting
  exactly the quiz's \<^verbatim>\<open>answer_index\<close> sequence yields a score of 100. The quiz
  without questions satisfies the hypothesis, its answer sequence is empty, and its
  score is 0.
\<close>

theorem perfect_answers_empty_quiz_counterexample:
  "list_all answer_index_valid [] \<and>
   grade [] (map answer_index []) = Inr (0, 0, 0) \<and>
   grade [] (map answer_index []) \<noteq> Inr (100, 0, 0)"
  by (simp add: grade_def score_of_0)

text \<open>
  C7, amended: for every quiz with at least one question, submitting exactly the quiz's
  \<^verbatim>\<open>answer_index\<close> sequence yields score 100, and the number of correct answers is the
  number of questions. This holds whether or not the indices are valid, since the
  grading never looks at the options.
\<close>

theorem perfect_answers_score_100:
  assumes "qs \<noteq> []"
  shows "grade qs (map answer_index qs) = Inr (100, length qs, length qs)"
  using assms by (simp add: grade_def count_correct_all score_of_all Let_def)

theorem perfect_answers_score_100_witness:
  "questions (quizzes ! 1) \<noteq> [] \<and>
   grade (questions (quizzes ! 1)) [1] = Inr (100, 1, 1)"
  using perfect_answers_score_100 [of "questions (quizzes ! 1)"]
  by (simp add: quizzes_def)

text \<open>
  C8. For a quiz with zero questions, grading any submitted answer list yields score 0,
  and the division does not raise: the divisor is \<^verbatim>\<open>max(1, 0) = 1\<close> and the quotient is
  the float 0.
\<close>

theorem grade_no_questions:
  "grade [] submitted = Inr (0, 0, 0) \<and>
   truediv (count_correct [] 0 submitted 0) (max 1 (length ([]::Question list))) = Inr (Float 0 0)"
  by (simp add: grade_def count_correct_no_questions score_of_0 truediv_def round_to_float_def)

section \<open>The store helpers\<close>

lemma store_call_fields:
  "track (snd (store_call s)) = track s" "lesson (snd (store_call s)) = lesson s"
  "quiz (snd (store_call s)) = quiz s" "attempt (snd (store_call s)) = attempt s"
  "next_id (snd (store_call s)) = next_id s"
  by (simp_all add: store_call_def split: list.split option.split)

lemma store_call_documents: "documents (snd (store_call s)) = documents s"
  by (simp add: documents_def store_call_fields)

lemma take_1_filter:
  "take (Suc 0) (filter P xs) = (case find P xs of None \<Rightarrow> [] | Some x \<Rightarrow> [x])"
  by (induction xs) simp_all

lemma str_7: "str 7 = ''7''"
  by (simp add: str.simps)

section \<open>Claims about the submission of an attempt\<close>

text \<open>
  C2. Whenever \<^verbatim>\<open>submit_attempt\<close> returns a response, the score of the response is
  an integer between 0 and 100; it is the score that \<open>grade\<close> computes from the
  questions of the quiz found under the identifier and from the submitted answers, and
  from nothing else (neither the store, nor the email, nor the time); and that same score
  is the one stored in the new attempt. That \<open>grade\<close> always yields such a score is
  \<open>grade_range\<close>.
\<close>

theorem submit_attempt_score:
  assumes "submit_attempt qid payload now s = (Inr (percent, correct, n), s')"
  shows "0 \<le> percent \<and> percent \<le> 100 \<and>
         (\<exists>q. find (\<lambda>d. fst d = qid) (quiz s) = Some q \<and>
              grade (questions (snd q)) (SubmitAttempt.answers payload) = Inr (percent, correct, n)) \<and>
         (\<exists>i. attempt s' = attempt s @
                 [(i, \<lparr>Attempt.user_email = SubmitAttempt.user_email payload, quiz_id = Some qid,
                       answers = SubmitAttempt.answers payload, score = Some percent,
                       created_at = Some now\<rparr>)])"
proof -
  obtain r1 s1 where g: "get_documents quiz (\<lambda>d. fst d = qid) 1 s = (r1, s1)"
    by (cases "get_documents quiz (\<lambda>d. fst d = qid) 1 s")
  with assms obtain found where r1: "r1 = Inr found"
    by (cases r1) (auto simp: submit_attempt_def)
  from g r1 have s1: "s1 = snd (store_call s)"
    and found: "found = take 1 (filter (\<lambda>d. fst d = qid) (quiz s))"
    using store_call_fields(3) [of s]
    by (auto simp: get_documents_def split: prod.splits sum.splits)
  from assms g r1 obtain q where q: "found = [q]"
    using found by (cases found) (auto simp: submit_attempt_def take_1_filter split: option.splits)
  with found have fq: "find (\<lambda>d. fst d = qid) (quiz s) = Some q"
    by (auto simp: take_1_filter split: option.splits)
  from assms g r1 q
  have gr: "grade (questions (snd q)) (SubmitAttempt.answers payload) = Inr (percent, correct, n)"
    by (auto simp: submit_attempt_def split: sum.splits prod.splits)
  from grade_range [of "questions (snd q)" "SubmitAttempt.answers payload"] gr
  have range: "0 \<le> percent \<and> percent \<le> 100" by auto
  from assms g r1 q gr
  have "\<exists>i. attempt s' = attempt s1 @
                 [(i, \<lparr>Attempt.user_email = SubmitAttempt.user_email payload, quiz_id = Some qid,
                       answers = SubmitAttempt.answers payload, score = Some percent,
                       created_at = Some now\<rparr>)]"
    using store_call_fields(4) [of s1]
    by (auto simp: submit_attempt_def create_document_def Let_def split: sum.splits prod.splits)
  with s1 have "\<exists>i. attempt s' = attempt s @
                 [(i, \<lparr>Attempt.user_email = SubmitAttempt.user_email payload, quiz_id = Some qid,
                       answers = SubmitAttempt.answers payload, score = Some percent,
                       created_at = Some now\<rparr>)]"
    by (simp add: store_call_fields)
  with range fq gr show ?thesis by blast
qed

theorem submit_attempt_score_witness:
  "submit_attempt ''0'' \<lparr>SubmitAttempt.user_email = ''a@b.c'', answers = [1]\<rparr> 5 sample_store =
     (Inr (100, 1, 1),
      sample_store\<lparr>attempt := [(''7'', \<lparr>Attempt.user_email = ''a@b.c'', quiz_id = Some ''0'',
                                      answers = [1], score = Some 100, created_at = Some 5\<rparr>)],
                   next_id := 8\<rparr>) \<and>
   (0::int) \<le> 100 \<and> (100::int) \<le> 100"
proof -
  have g: "grade [sample_question] [1] = Inr (100, 1, 1)"
    using score_of_all [of 1] by (simp add: grade_def sample_question_def)
  have e: "submit_attempt ''0'' \<lparr>SubmitAttempt.user_email = ''a@b.c'', answers = [1]\<rparr> 5 sample_store =
     (Inr (100, 1, 1),
      sample_store\<lparr>attempt := [(''7'', \<lparr>Attempt.user_email = ''a@b.c'', quiz_id = Some ''0'',
                                      answers = [1], score = Some 100, created_at = Some 5\<rparr>)],
                   next_id := 8\<rparr>)"
    by (simp add: submit_attempt_def get_documents_def create_document_def store_call_def
          sample_store_def sample_quiz_def g str_7 Let_def)
  from submit_attempt_score [OF e] e show ?thesis by simp
qed

text \<open>
  C3. When no quiz document has the given identifier, \<^verbatim>\<open>submit_attempt\<close> leaves every
  collection of the store as it was: nothing is graded and no attempt is persisted. When
  the store answers the lookup, the handler fails with \<^verbatim>\<open>HTTPException(404)\<close>. (When
  the lookup itself raises, that exception is what the caller sees, with the store
  unchanged all the same.)
\<close>

theorem submit_attempt_not_found:
  assumes "qid \<notin> fst ` set (quiz s)"
  shows "documents (snd (submit_attempt qid payload now s)) = documents s \<and>
         (fst (store_call s) = Inr () \<longrightarrow>
            fst (submit_attempt qid payload now s) = Inl (HTTPException 404 ''Quiz not found''))"
proof -
  from assms have "find (\<lambda>d. fst d = qid) (quiz s) = None"
    by (force simp: find_None_iff)
  then show ?thesis
    using store_call_documents [of s] store_call_fields(3) [of s]
    by (auto simp: submit_attempt_def get_documents_def take_1_filter split: prod.splits sum.splits)
qed

theorem submit_attempt_not_found_witness:
  "''8'' \<notin> fst ` set (quiz sample_store) \<and> fst (store_call sample_store) = Inr () \<and>
   submit_attempt ''8'' \<lparr>SubmitAttempt.user_email = ''a@b.c'', answers = [1]\<rparr> 0 sample_store =
     (Inl (HTTPException 404 ''Quiz not found''), sample_store)"
  using submit_attempt_not_found
    [of "''8''" sample_store "\<lparr>SubmitAttempt.user_email = ''a@b.c'', answers = [1]\<rparr>" 0]
  by (simp add: sample_store_def store_call_def submit_attempt_def get_documents_def)

section \<open>Claims about seeding\<close>

text \<open>
  The \<^verbatim>\<open>try\<close> block does fail when the store does: with a store whose next call
  raises, the first lookup of \<^verbatim>\<open>ensure_track\<close> ends the block.
\<close>

lemma seed_body_fails:
  "faults s = Some msg # fs \<Longrightarrow> seed_body md s = (Inl (StoreError msg), s\<lparr>faults := fs\<rparr>)"
  by (simp add: seed_body_def seed_tracks_def ensure_track_def get_documents_def store_call_def)

text \<open>
  C6. Whatever the store does during seeding, \<^verbatim>\<open>seed_data\<close> returns normally: every
  exception of the \<^verbatim>\<open>try\<close> block is caught by \<^verbatim>\<open>except Exception\<close>, and the store
  is left as the block left it, seeded up to the failure.
\<close>

theorem seed_data_never_raises:
  "fst (seed_data md s) = Inr () \<and> snd (seed_data md s) = snd (seed_body md s)"
  by (simp add: seed_data_def split: prod.split sum.split)

section \<open>Idempotent seeding\<close>

lemma ensure_track_present:
  assumes "tracks_with_key (Track.slug t) s \<noteq> []"
  shows "documents (snd (ensure_track t s)) = documents s"
proof -
  from assms have "take (Suc 0) (filter (\<lambda>d. Track.slug (snd d) = Track.slug t) (track s)) \<noteq> []"
    unfolding tracks_with_key_def
    by (cases "filter (\<lambda>d. Track.slug (snd d) = Track.slug t) (track s)") simp_all
  then show ?thesis
    using store_call_documents [of s] store_call_fields(1) [of s]
    by (auto simp: ensure_track_def get_documents_def split: prod.splits sum.splits)
qed

lemma ensure_track_repeated:
  assumes "tracks_with_key (Track.slug t) s \<noteq> []"
  shows "documents (again (ensure_track t) n s) = documents s"
proof (induction n)
  case 0
  then show ?case by (simp add: again_def)
next
  case (Suc n)
  let ?u = "again (ensure_track t) n s"
  from Suc have "track ?u = track s" by (simp add: documents_def)
  with assms have "tracks_with_key (Track.slug t) ?u \<noteq> []" by (simp add: tracks_with_key_def)
  then have "documents (snd (ensure_track t ?u)) = documents ?u"
    by (rule ensure_track_present)
  with Suc show ?case by (simp add: again_def)
qed

lemma ensure_track_first:
  assumes "ensure_track t s = (Inr (), s1)"
  shows "length (tracks_with_key (Track.slug t) s1) = max 1 (length (tracks_with_key (Track.slug t) s))"
proof (cases "filter (\<lambda>d. Track.slug (snd d) = Track.slug t) (track s)")
  case Nil
  with assms show ?thesis
    using store_call_fields(1) [of s] store_call_fields(1) [of "snd (store_call s)"]
    by (auto simp: ensure_track_def get_documents_def create_document_def Let_def
          tracks_with_key_def split: prod.splits sum.splits)
next
  case (Cons d ds)
  with assms show ?thesis
    using store_call_fields(1) [of s]
    by (auto simp: ensure_track_def get_documents_def tracks_with_key_def
          split: prod.splits sum.splits)
qed

lemma ensure_track_idempotent:
  assumes "ensure_track t s = (Inr (), s1)"
  shows "length (tracks_with_key (Track.slug t) s1) = max 1 (length (tracks_with_key (Track.slug t) s))"
    and "documents (again (ensure_track t) n (s1\<lparr>faults := fs\<rparr>)) = documents s1"
proof -
  show c: "length (tracks_with_key (Track.slug t) s1) = max 1 (length (tracks_with_key (Track.slug t) s))"
    using assms by (rule ensure_track_first)
  then have "tracks_with_key (Track.slug t) s1 \<noteq> []" by auto
  then have "tracks_with_key (Track.slug t) (s1\<lparr>faults := fs\<rparr>) \<noteq> []"
    by (simp add: tracks_with_key_def)
  then have "documents (again (ensure_track t) n (s1\<lparr>faults := fs\<rparr>)) = documents (s1\<lparr>faults := fs\<rparr>)"
    by (rule ensure_track_repeated)
  then show "documents (again (ensure_track t) n (s1\<lparr>faults := fs\<rparr>)) = documents s1"
    by (simp add: documents_def)
qed

lemma ensure_lesson_present:
  assumes "lessons_with_key (Lesson.slug t) s \<noteq> []"
  shows "documents (snd (ensure_lesson t s)) = documents s"
proof -
  from assms have "take (Suc 0) (filter (\<lambda>d. Lesson.slug (snd d) = Lesson.slug t) (lesson s)) \<noteq> []"
    unfolding lessons_with_key_def
    by (cases "filter (\<lambda>d. Lesson.slug (snd d) = Lesson.slug t) (lesson s)") simp_all
  then show ?thesis
    using store_call_documents [of s] store_call_fields(2) [of s]
    by (auto simp: ensure_lesson_def get_documents_def split: prod.splits sum.splits)
qed

lemma ensure_lesson_repeated:
  assumes "lessons_with_key (Lesson.slug t) s \<noteq> []"
  shows "documents (again (ensure_lesson t) n s) = documents s"
proof (induction n)
  case 0
  then show ?case by (simp add: again_def)
next
  case (Suc n)
  let ?u = "again (ensure_lesson t) n s"
  from Suc have "lesson ?u = lesson s" by (simp add: documents_def)
  with assms have "lessons_with_key (Lesson.slug t) ?u \<noteq> []" by (simp add: lessons_with_key_def)
  then have "documents (snd (ensure_lesson t ?u)) = documents ?u"
    by (rule ensure_lesson_present)
  with Suc show ?case by (simp add: again_def)
qed

lemma ensure_lesson_first:
  assumes "ensure_lesson t s = (Inr (), s1)"
  shows "length (lessons_with_key (Lesson.slug t) s1) = max 1 (length (lessons_with_key (Lesson.slug t) s))"
proof (cases "filter (\<lambda>d. Lesson.slug (snd d) = Lesson.slug t) (lesson s)")
  case Nil
  with assms show ?thesis
    using store_call_fields(2) [of s] store_call_fields(2) [of "snd (store_call s)"]
    by (auto simp: ensure_lesson_def get_documents_def create_document_def Let_def
          lessons_with_key_def split: prod.splits sum.splits)
next
  case (Cons d ds)
  with assms show ?thesis
    using store_call_fields(2) [of s]
    by (auto simp: ensure_lesson_def get_documents_def lessons_with_key_def
          split: prod.splits sum.splits)
qed

lemma ensure_lesson_idempotent:
  assumes "ensure_lesson t s = (Inr (), s1)"
  shows "length (lessons_with_key (Lesson.slug t) s1) = max 1 (length (lessons_with_key (Lesson.slug t) s))"
    and "documents (again (ensure_lesson t) n (s1\<lparr>faults := fs\<rparr>)) = documents s1"
proof -
  show c: "length (lessons_with_key (Lesson.slug t) s1) = max 1 (length (lessons_with_key (Lesson.slug t) s))"
    using assms by (rule ensure_lesson_first)
  then have "lessons_with_key (Lesson.slug t) s1 \<noteq> []" by auto
  then have "lessons_with_key (Lesson.slug t) (s1\<lparr>faults := fs\<rparr>) \<noteq> []"
    by (simp add: lessons_with_key_def)
  then have "documents (again (ensure_lesson t) n (s1\<lparr>faults := fs\<rparr>)) = documents (s1\<lparr>faults := fs\<rparr>)"
    by (rule ensure_lesson_repeated)
  then show "documents (again (ensure_lesson t) n (s1\<lparr>faults := fs\<rparr>)) = documents s1"
    by (simp add: documents_def)
qed

lemma ensure_quiz_present:
  assumes "quizzes_with_key (lesson_slug t) s \<noteq> []"
  shows "documents (snd (ensure_quiz t s)) = documents s"
proof -
  from assms have "take (Suc 0) (filter (\<lambda>d. lesson_slug (snd d) = lesson_slug t) (quiz s)) \<noteq> []"
    unfolding quizzes_with_key_def
    by (cases "filter (\<lambda>d. lesson_slug (snd d) = lesson_slug t) (quiz s)") simp_all
  then show ?thesis
    using store_call_documents [of s] store_call_fields(3) [of s]
    by (auto simp: ensure_quiz_def get_documents_def split: prod.splits sum.splits)
qed

lemma ensure_quiz_repeated:
  assumes "quizzes_with_key (lesson_slug t) s \<noteq> []"
  shows "documents (again (ensure_quiz t) n s) = documents s"
proof (induction n)
  case 0
  then show ?case by (simp add: again_def)
next
  case (Suc n)
  let ?u = "again (ensure_quiz t) n s"
  from Suc have "quiz ?u = quiz s" by (simp add: documents_def)
  with assms have "quizzes_with_key (lesson_slug t) ?u \<noteq> []" by (simp add: quizzes_with_key_def)
  then have "documents (snd (ensure_quiz t ?u)) = documents ?u"
    by (rule ensure_quiz_present)
  with Suc show ?case by (simp add: again_def)
qed

lemma ensure_quiz_first:
  assumes "ensure_quiz t s = (Inr (), s1)"
  shows "length (quizzes_with_key (lesson_slug t) s1) = max 1 (length (quizzes_with_key (lesson_slug t) s))"
proof (cases "filter (\<lambda>d. lesson_slug (snd d) = lesson_slug t) (quiz s)")
  case Nil
  with assms show ?thesis
    using store_call_fields(3) [of s] store_call_fields(3) [of "snd (store_call s)"]
    by (auto simp: ensure_quiz_def get_documents_def create_document_def Let_def
          quizzes_with_key_def split: prod.splits sum.splits)
next
  case (Cons d ds)
  with assms show ?thesis
    using store_call_fields(3) [of s]
    by (auto simp: ensure_quiz_def get_documents_def quizzes_with_key_def
          split: prod.splits sum.splits)
qed

lemma ensure_quiz_idempotent:
  assumes "ensure_quiz t s = (Inr (), s1)"
  shows "length (quizzes_with_key (lesson_slug t) s1) = max 1 (length (quizzes_with_key (lesson_slug t) s))"
    and "documents (again (ensure_quiz t) n (s1\<lparr>faults := fs\<rparr>)) = documents s1"
proof -
  show c: "length (quizzes_with_key (lesson_slug t) s1) = max 1 (length (quizzes_with_key (lesson_slug t) s))"
    using assms by (rule ensure_quiz_first)
  then have "quizzes_with_key (lesson_slug t) s1 \<noteq> []" by auto
  then have "quizzes_with_key (lesson_slug t) (s1\<lparr>faults := fs\<rparr>) \<noteq> []"
    by (simp add: quizzes_with_key_def)
  then have "documents (again (ensure_quiz t) n (s1\<lparr>faults := fs\<rparr>)) = documents (s1\<lparr>faults := fs\<rparr>)"
    by (rule ensure_quiz_repeated)
  then show "documents (again (ensure_quiz t) n (s1\<lparr>faults := fs\<rparr>)) = documents s1"
    by (simp add: documents_def)
qed

text \<open>
  C4, as stated: from any store state, invoking \<open>ensure\<close> twice with the same document
  leaves exactly one stored document for the natural key. From a store that already
  holds two tracks with the slug \<^verbatim>\<open>section-i\<close>, both invocations find a document and
  insert nothing, and the store still holds two.
\<close>

theorem ensure_track_duplicates_counterexample:
  "snd (ensure_track (hd seed_tracks) (snd (ensure_track (hd seed_tracks) duplicate_store))) =
     duplicate_store \<and>
   length (tracks_with_key (Track.slug (hd seed_tracks)) duplicate_store) = 2"
  by (simp add: ensure_track_def get_documents_def store_call_def duplicate_store_def
        tracks_with_key_def)

text \<open>
  C4, amended: from any store state, once an invocation of \<open>ensure\<close> has returned
  normally, the number of stored documents for the natural key is the number before, or
  one if there was none (so exactly one whenever the store held at most one), and every
  later invocation with the same document, any number of them and whatever the store
  does, leaves all stored documents untouched. The same for tracks, lessons and quizzes.
\<close>

theorem ensure_idempotent:
  "(ensure_track t s = (Inr (), s1) \<longrightarrow>
      length (tracks_with_key (Track.slug t) s1) = max 1 (length (tracks_with_key (Track.slug t) s)) \<and>
      documents (again (ensure_track t) n (s1\<lparr>faults := fs\<rparr>)) = documents s1) \<and>
   (ensure_lesson l s = (Inr (), s2) \<longrightarrow>
      length (lessons_with_key (Lesson.slug l) s2) = max 1 (length (lessons_with_key (Lesson.slug l) s)) \<and>
      documents (again (ensure_lesson l) n (s2\<lparr>faults := fs\<rparr>)) = documents s2) \<and>
   (ensure_quiz q s = (Inr (), s3) \<longrightarrow>
      length (quizzes_with_key (lesson_slug q) s3) = max 1 (length (quizzes_with_key (lesson_slug q) s)) \<and>
      documents (again (ensure_quiz q) n (s3\<lparr>faults := fs\<rparr>)) = documents s3)"
  using ensure_track_idempotent [of t s s1] ensure_lesson_idempotent [of l s s2]
    ensure_quiz_idempotent [of q s s3]
  by blast

theorem ensure_idempotent_witness:
  "ensure_track (hd seed_tracks) empty_store =
     (Inr (), empty_store\<lparr>track := [(''0'', hd seed_tracks)], next_id := 1\<rparr>) \<and>
   ensure_lesson (hd (lessons (\<lambda>n. []))) empty_store =
     (Inr (), empty_store\<lparr>lesson := [(''0'', hd (lessons (\<lambda>n. [])))], next_id := 1\<rparr>) \<and>
   ensure_quiz (hd quizzes) empty_store =
     (Inr (), empty_store\<lparr>quiz := [(''0'', hd quizzes)], next_id := 1\<rparr>) \<and>
   length (tracks_with_key ''section-i''
       (empty_store\<lparr>track := [(''0'', hd seed_tracks)], next_id := 1\<rparr>)) = 1 \<and>
   documents (again (ensure_track (hd seed_tracks)) 2
       (empty_store\<lparr>track := [(''0'', hd seed_tracks)], next_id := 1, faults := [None, Some ''down'']\<rparr>)) =
     documents (empty_store\<lparr>track := [(''0'', hd seed_tracks)], next_id := 1\<rparr>) \<and>
   length (lessons_with_key ''unit-1-intro-db''
       (empty_store\<lparr>lesson := [(''0'', hd (lessons (\<lambda>n. [])))], next_id := 1\<rparr>)) = 1 \<and>
   length (quizzes_with_key ''unit-1-intro-db''
       (empty_store\<lparr>quiz := [(''0'', hd quizzes)], next_id := 1\<rparr>)) = 1"
proof -
  have a: "ensure_track (hd seed_tracks) empty_store =
      (Inr (), empty_store\<lparr>track := [(''0'', hd seed_tracks)], next_id := 1\<rparr>)"
    by (simp add: ensure_track_def get_documents_def create_document_def store_call_def
          empty_store_def str.simps Let_def)
  have b: "ensure_lesson (hd (lessons (\<lambda>n. []))) empty_store =
      (Inr (), empty_store\<lparr>lesson := [(''0'', hd (lessons (\<lambda>n. [])))], next_id := 1\<rparr>)"
    by (simp add: ensure_lesson_def get_documents_def create_document_def store_call_def
          empty_store_def str.simps Let_def)
  have c: "ensure_quiz (hd quizzes) empty_store =
      (Inr (), empty_store\<lparr>quiz := [(''0'', hd quizzes)], next_id := 1\<rparr>)"
    by (simp add: ensure_quiz_def get_documents_def create_document_def store_call_def
          empty_store_def str.simps Let_def)
  show ?thesis
    using a b c
      ensure_idempotent [of "hd seed_tracks" empty_store
        "empty_store\<lparr>track := [(''0'', hd seed_tracks)], next_id := 1\<rparr>" 2 "[None, Some ''down'']"
        "hd (lessons (\<lambda>n. []))" "empty_store\<lparr>lesson := [(''0'', hd (lessons (\<lambda>n. [])))], next_id := 1\<rparr>"
        "hd quizzes" "empty_store\<lparr>quiz := [(''0'', hd quizzes)], next_id := 1\<rparr>"]
    by (simp add: tracks_with_key_def lessons_with_key_def quizzes_with_key_def empty_store_def
          seed_tracks_def lessons_def quizzes_def)
qed

section \<open>Claims about the lessons of a track\<close>

text \<open>
  C9, as stated: the endpoint returns exactly the stored lessons of the track. The
  handler asks the store for at most 200 documents: of 201 stored lessons of the track
  \<^verbatim>\<open>section-i\<close> it returns 200.
\<close>

theorem list_lessons_cap_counterexample:
  "length (filter (\<lambda>d. track_slug (snd d) = ''section-i'') (lesson crowded_store)) = 201 \<and>
   fst (list_lessons ''section-i'' crowded_store) = Inr (replicate 200 (''0'', hd (lessons (\<lambda>n. []))))"
proof -
  have "sort_key order_key (replicate 200 (''0'', hd (lessons (\<lambda>n. [])))) =
          replicate 200 (''0'', hd (lessons (\<lambda>n. [])))"
    by (rule sort_key_id_if_sorted) simp
  then show ?thesis
    by (simp add: list_lessons_def get_documents_def store_call_def crowded_store_def lessons_def)
qed

text \<open>
  C9, amended: whenever the endpoint returns, the result is sorted in ascending order of
  \<^verbatim>\<open>order\<close> (a lesson without the field counting as 0), lessons of equal order keep the
  order of the store, and the result consists of the stored lessons of the track that
  the store returned, the first 200 of them: exactly the stored lessons of the track when
  there are at most 200.
\<close>

theorem list_lessons_sorted:
  assumes "list_lessons sl s = (Inr r, s')"
  shows "sorted (map order_key r) \<and>
         mset r = mset (take 200 (filter (\<lambda>d. track_slug (snd d) = sl) (lesson s))) \<and>
         (\<forall>k. filter (\<lambda>x. order_key x = k) r =
              filter (\<lambda>x. order_key x = k)
                (take 200 (filter (\<lambda>d. track_slug (snd d) = sl) (lesson s)))) \<and>
         (length (filter (\<lambda>d. track_slug (snd d) = sl) (lesson s)) \<le> 200 \<longrightarrow>
            set r = {d \<in> set (lesson s). track_slug (snd d) = sl})"
proof -
  from assms
  have r: "r = sort_key order_key (take 200 (filter (\<lambda>d. track_slug (snd d) = sl) (lesson s)))"
    using store_call_fields(2) [of s]
    by (auto simp: list_lessons_def get_documents_def split: prod.splits sum.splits)
  show ?thesis unfolding r by (auto simp: sorted_sort_key sort_key_stable)
qed

theorem list_lessons_sorted_witness:
  "list_lessons ''section-i'' shelf_store =
     (Inr [(''2'', lessons (\<lambda>n. []) ! 0), (''0'', lessons (\<lambda>n. []) ! 1)], shelf_store) \<and>
   sorted (map order_key [(''2'', lessons (\<lambda>n. []) ! 0), (''0'', lessons (\<lambda>n. []) ! 1)])"
proof -
  have e: "list_lessons ''section-i'' shelf_store =
     (Inr [(''2'', lessons (\<lambda>n. []) ! 0), (''0'', lessons (\<lambda>n. []) ! 1)], shelf_store)"
    by (simp add: list_lessons_def get_documents_def store_call_def shelf_store_def lessons_def
          order_key_def)
  from list_lessons_sorted [OF e] e show ?thesis by simp
qed

section \<open>Progress aggregation\<close>

lemma best_scores_append: "best_scores (xs @ ys) bq = best_scores ys (best_scores xs bq)"
  by (induction xs arbitrary: bq) simp_all

lemma best_scores_distinct:
  "distinct (map fst bq) \<Longrightarrow> distinct (map fst (best_scores as bq))"
  by (induction as arbitrary: bq) (simp_all add: distinct_update split: option.split)

lemma best_scores_map:
  "map_of (best_scores as bq) k =
     (case map_of bq k of
        None \<Rightarrow>
          if k \<in> (\<lambda>a. quiz_id (snd a)) ` set as
          then Some (Max (score_or_0 ` {a \<in> set as. quiz_id (snd a) = k}))
          else None
      | Some b \<Rightarrow> Some (Max (insert b (score_or_0 ` {a \<in> set as. quiz_id (snd a) = k}))))"
proof (induction as arbitrary: bq)
  case Nil
  then show ?case by (simp split: option.split)
next
  case (Cons a as)
  let ?S = "score_or_0 ` {x \<in> set as. quiz_id (snd x) = k}"
  have fin: "finite ?S" by simp
  show ?case
  proof (cases "quiz_id (snd a) = k")
    case False
    then have "{x \<in> set (a # as). quiz_id (snd x) = k} = {x \<in> set as. quiz_id (snd x) = k}"
      by auto
    moreover from False have "k \<in> (\<lambda>a. quiz_id (snd a)) ` set (a # as) \<longleftrightarrow> k \<in> (\<lambda>a. quiz_id (snd a)) ` set as"
      by auto
    ultimately show ?thesis using False
      by (simp add: Cons.IH update_conv' split: option.split)
  next
    case True
    then have S: "score_or_0 ` {x \<in> set (a # as). quiz_id (snd x) = k} = insert (score_or_0 a) ?S"
      by auto
    from True have mem: "k \<in> (\<lambda>a. quiz_id (snd a)) ` set (a # as)" by auto
    have empty: "k \<notin> (\<lambda>a. quiz_id (snd a)) ` set as \<Longrightarrow> ?S = {}" by force
    show ?thesis
    proof (cases "map_of bq k")
      case None
      with True show ?thesis unfolding S
        by (simp add: Cons.IH update_conv' mem del: image_eqI) 
    next
      case (Some b)
      show ?thesis
      proof (cases "score_or_0 a > b")
        case gt: True
        have "score_or_0 a \<le> Max (insert (score_or_0 a) ?S)" using fin by simp
        with gt have "b \<le> Max (insert (score_or_0 a) ?S)" by linarith
        moreover have "Max (insert b (insert (score_or_0 a) ?S)) = max b (Max (insert (score_or_0 a) ?S))"
          using fin by (intro Max_insert) simp_all
        ultimately have "Max (insert b (insert (score_or_0 a) ?S)) = Max (insert (score_or_0 a) ?S)"
          by simp
        with True Some gt show ?thesis unfolding S
          by (simp add: Cons.IH update_conv')
      next
        case le: False
        have "b \<le> Max (insert b ?S)" using fin by simp
        with le have "score_or_0 a \<le> Max (insert b ?S)" by linarith
        moreover have "Max (insert (score_or_0 a) (insert b ?S)) = max (score_or_0 a) (Max (insert b ?S))"
          using fin by (intro Max_insert) simp_all
        ultimately have "Max (insert b (insert (score_or_0 a) ?S)) = Max (insert b ?S)"
          by (simp add: insert_commute)
        with True Some le show ?thesis unfolding S
          by (simp add: Cons.IH)
      qed
    qed
  qed
qed


lemma best_scores_result:
  "map_of (best_scores as []) k =
     (if k \<in> (\<lambda>a. quiz_id (snd a)) ` set as
      then Some (Max (score_or_0 ` {a \<in> set as. quiz_id (snd a) = k}))
      else None)"
  by (simp add: best_scores_map)

lemma completed_count_card:
  "distinct (map fst al) \<Longrightarrow>
     completed_count al = card {k. \<exists>b. map_of al k = Some b \<and> 70 \<le> b}"
proof (induction al)
  case Nil
  then show ?case by (simp add: completed_count_def)
next
  case (Cons p al)
  obtain k0 v0 where p: "p = (k0, v0)" by (cases p)
  let ?A = "{k. \<exists>b. map_of al k = Some b \<and> 70 \<le> b}"
  have "?A \<subseteq> fst ` set al" by (auto dest: map_of_SomeD intro: rev_image_eqI)
  then have fin: "finite ?A" by (rule finite_subset) simp
  from Cons.prems p have notin: "k0 \<notin> fst ` set al" by simp
  then have none: "map_of al k0 = None" by (simp add: map_of_eq_None_iff)
  then have k0: "k0 \<notin> ?A" by simp
  have set: "{k. \<exists>b. map_of (p # al) k = Some b \<and> 70 \<le> b} = (if 70 \<le> v0 then insert k0 ?A else ?A)"
    using none by (auto simp: p)
  from Cons have IH: "completed_count al = card ?A" by simp
  show ?case unfolding set using IH fin k0
    by (simp add: completed_count_def p)
qed

lemma update_absent: "map_of al k = None \<Longrightarrow> AList.update k v al = al @ [(k, v)]"
  by (induction al) (auto split: if_splits)

lemma completed_count_update:
  "map_of al k = Some b \<Longrightarrow> b < 70 \<Longrightarrow> v < 70 \<Longrightarrow>
     completed_count (AList.update k v al) = completed_count al"
  by (induction al) (auto simp: completed_count_def split: if_splits)

lemma best_scores_replicate:
  "map_of bq (quiz_id (snd a)) = Some (score_or_0 a) \<Longrightarrow> best_scores (replicate n a) bq = bq"
  by (induction n) simp_all

lemma best_scores_same_entry:
  "quiz_id (snd a) = quiz_id (snd a') \<Longrightarrow> score_or_0 a = score_or_0 a' \<Longrightarrow>
     best_scores (a # ys) bq = best_scores (a' # ys) bq"
  by (simp split: option.split)

section \<open>Claims about the progress of a learner\<close>

text \<open>
  C5, as stated: for every set of stored attempts of the learner, \<^verbatim>\<open>best_scores\<close> maps
  each quiz identifier to the maximum score among that quiz's attempts. The handler asks
  the store for at most 1000 attempts: of a thousand attempts scoring 10 followed by one
  scoring 90, all on one quiz, it sees the thousand and answers a best score of 10 and no
  completed quiz, where the maximum is 90.
\<close>

theorem get_progress_cap_counterexample:
  "get_progress ''a@b.c'' busy_store = (Inr (0, [(Some ''0'', 10)]), busy_store) \<and>
   Max (score_or_0 ` {a \<in> set (attempt busy_store).
          Attempt.user_email (snd a) = ''a@b.c'' \<and> quiz_id (snd a) = Some ''0''}) = 90"
proof -
  have "best_scores (replicate 1000 (''1'', scored (Some 10))) [] =
          best_scores (replicate 999 (''1'', scored (Some 10))) [(Some ''0'', 10)]"
    using replicate_Suc [of 999 "(''1'', scored (Some 10))"]
    by (simp add: scored_def score_or_0_def del: replicate_Suc)
  also have "\<dots> = [(Some ''0'', 10)]"
    by (rule best_scores_replicate) (simp add: scored_def score_or_0_def)
  finally have b: "best_scores (replicate 1000 (''1'', scored (Some 10))) [] = [(Some ''0'', 10)]" .
  have "{a \<in> set (attempt busy_store).
          Attempt.user_email (snd a) = ''a@b.c'' \<and> quiz_id (snd a) = Some ''0''} =
        {(''1'', scored (Some 10)), (''2'', scored (Some 90))}"
    by (auto simp: busy_store_def scored_def)
  then have m: "Max (score_or_0 ` {a \<in> set (attempt busy_store).
          Attempt.user_email (snd a) = ''a@b.c'' \<and> quiz_id (snd a) = Some ''0''}) = 90"
    by (simp add: score_or_0_def scored_def)
  have g: "get_documents attempt (\<lambda>d. Attempt.user_email (snd d) = ''a@b.c'') 1000 busy_store =
          (Inr (replicate 1000 (''1'', scored (Some 10))), busy_store)"
    by (simp add: get_documents_def store_call_def busy_store_def scored_def)
  have "get_progress ''a@b.c'' busy_store = (Inr (0, [(Some ''0'', 10)]), busy_store)"
    by (simp add: get_progress_def g b completed_count_def)
  with m show ?thesis by simp
qed

text \<open>
  C5, amended: whenever \<^verbatim>\<open>get_progress\<close> returns, \<^verbatim>\<open>best_scores\<close> has one entry for
  each quiz identifier among the attempts that the store returned for the email (the
  first 1000 stored ones, all of them when there are at most 1000), the entry is the
  maximum score among those attempts of that quiz, and \<^verbatim>\<open>quizzes_completed\<close> is the
  number of quiz identifiers whose best score is at least 70; a learner with no attempts
  gets 0 and an empty mapping.
\<close>

theorem get_progress_best_scores:
  assumes "get_progress email s = (Inr (completed, by_quiz), s')"
  shows "distinct (map fst by_quiz) \<and>
         (\<forall>k. map_of by_quiz k =
            (if k \<in> (\<lambda>a. quiz_id (snd a)) `
                      set (take 1000 (filter (\<lambda>d. Attempt.user_email (snd d) = email) (attempt s)))
             then Some (Max (score_or_0 `
                      {a \<in> set (take 1000 (filter (\<lambda>d. Attempt.user_email (snd d) = email) (attempt s))).
                         quiz_id (snd a) = k}))
             else None)) \<and>
         completed = card {k. \<exists>b. map_of by_quiz k = Some b \<and> 70 \<le> b} \<and>
         (filter (\<lambda>d. Attempt.user_email (snd d) = email) (attempt s) = [] \<longrightarrow>
            completed = 0 \<and> by_quiz = [])"
proof -
  let ?as = "take 1000 (filter (\<lambda>d. Attempt.user_email (snd d) = email) (attempt s))"
  from assms have bq: "by_quiz = best_scores ?as []" and c: "completed = completed_count by_quiz"
    using store_call_fields(4) [of s]
    by (auto simp: get_progress_def get_documents_def Let_def split: prod.splits sum.splits)
  have d: "distinct (map fst by_quiz)" unfolding bq by (rule best_scores_distinct) simp
  then have "completed = card {k. \<exists>b. map_of by_quiz k = Some b \<and> 70 \<le> b}"
    unfolding c by (rule completed_count_card)
  moreover have "filter (\<lambda>d. Attempt.user_email (snd d) = email) (attempt s) = [] \<longrightarrow>
            completed = 0 \<and> by_quiz = []"
    by (simp add: bq c completed_count_def)
  ultimately show ?thesis using d by (simp add: bq best_scores_result)
qed

theorem get_progress_best_scores_witness:
  "get_progress ''a@b.c'' progress_store = (Inr (1, [(Some ''0'', 90)]), progress_store) \<and>
   map_of [(Some ''0'', (90::int))] (Some ''0'') = Some 90 \<and>
   (1::nat) = card {k. \<exists>b. map_of [(Some ''0'', (90::int))] k = Some b \<and> 70 \<le> b} \<and>
   get_progress ''a@b.c'' empty_store = (Inr (0, []), empty_store)"
proof -
  have e: "get_progress ''a@b.c'' progress_store = (Inr (1, [(Some ''0'', 90)]), progress_store)"
    by (simp add: get_progress_def get_documents_def store_call_def progress_store_def
          completed_count_def scored_def score_or_0_def)
  have n: "get_progress ''a@b.c'' empty_store = (Inr (0, []), empty_store)"
    by (simp add: get_progress_def get_documents_def store_call_def empty_store_def
          completed_count_def)
  from get_progress_best_scores [OF e] get_progress_best_scores [OF n] e n show ?thesis by simp
qed

text \<open>
  An attempt without a score field, processed after the attempts \<open>as\<close>: it enters the
  comparison as 0.
\<close>

lemma best_scores_unscored_step:
  assumes "score (snd a) = None"
  shows "best_scores (as @ [a]) [] =
           (case map_of (best_scores as []) (quiz_id (snd a)) of
              None \<Rightarrow> best_scores as [] @ [(quiz_id (snd a), 0)]
            | Some b \<Rightarrow>
                if 0 \<le> b then best_scores as []
                else AList.update (quiz_id (snd a)) 0 (best_scores as [])) \<and>
         completed_count (best_scores (as @ [a]) []) = completed_count (best_scores as []) \<and>
         best_scores (xs @ [a] @ ys) [] =
           best_scores (xs @ [(fst a, (snd a)\<lparr>score := Some 0\<rparr>)] @ ys) []"
proof -
  from assms have z: "score_or_0 a = 0" by (simp add: score_or_0_def)
  have z': "score_or_0 (fst a, (snd a)\<lparr>score := Some 0\<rparr>) = 0" by (simp add: score_or_0_def)
  let ?bq = "best_scores as []"
  have step: "best_scores (as @ [a]) [] =
           (case map_of ?bq (quiz_id (snd a)) of
              None \<Rightarrow> ?bq @ [(quiz_id (snd a), 0)]
            | Some b \<Rightarrow> if 0 \<le> b then ?bq else AList.update (quiz_id (snd a)) 0 ?bq)"
    by (auto simp: best_scores_append z update_absent split: option.split)
  have count: "completed_count (best_scores (as @ [a]) []) = completed_count ?bq"
  proof (cases "map_of ?bq (quiz_id (snd a))")
    case None
    then show ?thesis unfolding step by (simp add: completed_count_def)
  next
    case (Some b)
    show ?thesis
    proof (cases "0 \<le> b")
      case True
      with Some show ?thesis unfolding step by simp
    next
      case False
      with Some have "completed_count (AList.update (quiz_id (snd a)) 0 ?bq) = completed_count ?bq"
        by (intro completed_count_update [of _ _ b]) simp_all
      with Some False show ?thesis unfolding step by simp
    qed
  qed
  have same: "best_scores (xs @ [a] @ ys) [] =
           best_scores (xs @ [(fst a, (snd a)\<lparr>score := Some 0\<rparr>)] @ ys) []"
  proof -
    have "best_scores (a # ys) bq = best_scores ((fst a, (snd a)\<lparr>score := Some 0\<rparr>) # ys) bq" for bq
      by (rule best_scores_same_entry) (simp_all add: z z')
    then show ?thesis by (simp only: best_scores_append append_Cons append_Nil)
  qed
  from step count same show ?thesis by simp
qed

lemma best_scores_nonneg:
  assumes "list_all (\<lambda>x. 0 \<le> score_or_0 x) as" and "map_of (best_scores as []) k = Some b"
  shows "0 \<le> b"
proof -
  let ?S = "score_or_0 ` {x \<in> set as. quiz_id (snd x) = k}"
  from assms(2) have k: "k \<in> (\<lambda>a. quiz_id (snd a)) ` set as" and b: "b = Max ?S"
    by (auto simp: best_scores_result split: if_splits)
  from k have "?S \<noteq> {}" by force
  then have "Max ?S \<in> ?S" by (intro Max_in) simp_all
  with b obtain x where "x \<in> set as" and "b = score_or_0 x" by auto
  with assms(1) show ?thesis by (auto simp: list_all_iff)
qed

text \<open>
  C10. The scores of the data model are percentages, from 0 to 100, and those that
  \<^verbatim>\<open>submit_attempt\<close> stores are. Among attempts whose scores are at least 0, an
  attempt without a score field is treated as having score 0: replacing it by the same
  attempt with score 0 changes nothing; processed after the attempts \<open>as\<close>, it
  establishes a best score of 0 for a quiz identifier that has none, it leaves every
  existing best score as it is, and it never changes the number of completed quizzes.
\<close>

theorem unscored_attempt_counts_as_0:
  assumes "score (snd a) = None" and "list_all (\<lambda>x. 0 \<le> score_or_0 x) as"
  shows "best_scores (xs @ [a] @ ys) [] =
           best_scores (xs @ [(fst a, (snd a)\<lparr>score := Some 0\<rparr>)] @ ys) [] \<and>
         (map_of (best_scores as []) (quiz_id (snd a)) = None \<longrightarrow>
            best_scores (as @ [a]) [] = best_scores as [] @ [(quiz_id (snd a), 0)]) \<and>
         (map_of (best_scores as []) (quiz_id (snd a)) \<noteq> None \<longrightarrow>
            best_scores (as @ [a]) [] = best_scores as []) \<and>
         completed_count (best_scores (as @ [a]) []) = completed_count (best_scores as [])"
proof -
  note step = best_scores_unscored_step [OF assms(1), of as xs ys]
  have "best_scores (as @ [a]) [] = best_scores as []"
    if "map_of (best_scores as []) (quiz_id (snd a)) \<noteq> None"
  proof -
    from that obtain b where b: "map_of (best_scores as []) (quiz_id (snd a)) = Some b" by auto
    with assms(2) have "0 \<le> b" by (rule best_scores_nonneg)
    with b step show ?thesis by simp
  qed
  moreover have "best_scores (as @ [a]) [] = best_scores as [] @ [(quiz_id (snd a), 0)]"
    if "map_of (best_scores as []) (quiz_id (snd a)) = None"
    using that step by simp
  ultimately show ?thesis using step by blast
qed

theorem unscored_attempt_counts_as_0_witness:
  "score (snd (''2'', scored None)) = None \<and>
   list_all (\<lambda>x. 0 \<le> score_or_0 x) [(''1'', scored (Some 80))] \<and>
   map_of (best_scores [(''1'', scored (Some 80))] []) (Some ''0'') \<noteq> None \<and>
   best_scores ([(''1'', scored (Some 80))] @ [(''2'', scored None)]) [] = [(Some ''0'', 80)] \<and>
   completed_count (best_scores ([(''1'', scored (Some 80))] @ [(''2'', scored None)]) []) = 1 \<and>
   map_of (best_scores [] []) (Some ''0'') = None \<and>
   best_scores ([] @ [(''2'', scored None)]) [] = [(Some ''0'', 0)]"
  using unscored_attempt_counts_as_0 [of "(''2'', scored None)" "[(''1'', scored (Some 80))]" "[]" "[]"]
    unscored_attempt_counts_as_0 [of "(''2'', scored None)" "[]" "[]" "[]"]
  by (simp add: scored_def score_or_0_def completed_count_def)

end
